theory Spec2Isabelle
  imports Main "HOL-Library.AList" "HOL-Library.Word"
begin

section \<open>The blocking queue of \<^verbatim>\<open>lib/base/mtQueue.h\<close>\<close>

text \<open>
  \<^verbatim>\<open>MTQueue<T>\<close> wraps a \<^verbatim>\<open>std::deque<T> _queue\<close> and a mutex/condition pair.
  The deque is a list whose head is the front of the queue. Each member function is
  modelled by its effect on that list while the mutex is held.

  \<^verbatim>\<open>template< typename T > const T MTQueue<T>::NONE = 0;\<close>
  The sentinel is the value \<open>0\<close> of the element type, so the element type is any type
  that has a zero.
\<close>

definition NONE :: "'a::zero" where
  "NONE = 0"

definition isEmpty :: "'a list \<Rightarrow> bool" where
  "isEmpty q = (q = [])"

definition getSize :: "'a list \<Rightarrow> nat" where
  "getSize q = length q"

text \<open>\<^verbatim>\<open>_queue.push_back( element )\<close>\<close>

definition push :: "'a list \<Rightarrow> 'a \<Rightarrow> 'a list" where
  "push q element = q @ [element]"

text \<open>\<^verbatim>\<open>_queue.insert( _queue.end(), elements.begin(), elements.end( ))\<close>\<close>

definition push_vector :: "'a list \<Rightarrow> 'a list \<Rightarrow> 'a list" where
  "push_vector q elements = q @ elements"

text \<open>\<^verbatim>\<open>_queue.push_front( element )\<close>\<close>

definition pushFront :: "'a list \<Rightarrow> 'a \<Rightarrow> 'a list" where
  "pushFront q element = element # q"

subsection \<open>What other threads do while a caller waits\<close>

text \<open>
  While a thread sits in \<^verbatim>\<open>pthread_cond_wait\<close> or \<^verbatim>\<open>pthread_cond_timedwait\<close> the
  mutex is released and other threads operate on the queue. Their operations, in the
  order in which they took the mutex, are a list of \<open>other\<close> steps; \<open>OtherTake\<close> is
  another consumer removing the front element if there is one.
\<close>

datatype 'a other =
    OtherPush 'a
  | OtherPushVector "'a list"
  | OtherPushFront 'a
  | OtherTake

fun other_step :: "'a list \<Rightarrow> 'a other \<Rightarrow> 'a list" where
  "other_step q (OtherPush x) = push q x"
| "other_step q (OtherPushVector xs) = push_vector q xs"
| "other_step q (OtherPushFront x) = pushFront q x"
| "other_step q OtherTake = (case q of [] \<Rightarrow> [] | x # xs \<Rightarrow> xs)"

definition others :: "'a other list \<Rightarrow> 'a list \<Rightarrow> 'a list" where
  "others env q = foldl other_step q env"

subsection \<open>Retrieval\<close>

text \<open>
  A retrieval either returns an element together with the queue it leaves behind, or
  the calling thread stays suspended in the condition wait.
\<close>

datatype 'a outcome = Returned 'a "'a list" | Suspended

text \<open>
  \<^verbatim>\<open>
  T MTQueue<T>::pop()
  {
      pthread_mutex_lock( &_data->mutex );
      while( _queue.empty( ))
          pthread_cond_wait( &_data->cond, &_data->mutex );
      EQASSERT( !_queue.empty( ));
      T element = _queue.front();
      _queue.pop_front();
      pthread_mutex_unlock( &_data->mutex );
      return element;
  }
  \<close>
  The first argument lists, for each return of \<^verbatim>\<open>pthread_cond_wait\<close>, what the other
  threads did during that wait (an empty entry is a spurious wake-up). When the list is
  used up no thread ever wakes the caller again: it stays suspended.
\<close>

fun pop :: "'a other list list \<Rightarrow> 'a list \<Rightarrow> 'a outcome" where
  "pop env (x # xs) = Returned x xs"
| "pop [] [] = Suspended"
| "pop (e # env) [] = pop env (others e [])"

text \<open>
  \<^verbatim>\<open>
  T MTQueue<T>::pop( const uint32_t timeout )
  {
      timeb tb;
      ftime( &tb );
      const timespec ts =
          { static_cast<int>( timeout / 1000 ) + tb.time,
            (timeout - ts.tv_sec*1000) * 1000000 + tb.millitm * 1000000 };

      pthread_mutex_lock( &_data->mutex );
      pthread_cond_timedwait( &_data->cond, &_data->mutex, &ts );
      if( _queue.empty( ))
      {
          pthread_mutex_unlock( &_data->mutex );
          return NONE;
      }
      T element = _queue.front();
      _queue.pop_front();
      pthread_mutex_unlock( &_data->mutex );
      return element;
  }
  \<close>
  The clock reading \<^verbatim>\<open>tb\<close> is an input: \<open>tb_time\<close> seconds since the epoch
  (\<^verbatim>\<open>time_t\<close>, a 64-bit \<^verbatim>\<open>long\<close>) and \<open>tb_millitm\<close> milliseconds
  (\<^verbatim>\<open>unsigned short\<close>). The members of \<open>ts\<close> are initialised in order, so the
  initialiser of \<^verbatim>\<open>tv_nsec\<close> reads the \<^verbatim>\<open>ts.tv_sec\<close> just computed, which is an
  absolute time in seconds. The arithmetic is that of the C types: \<^verbatim>\<open>timeout / 1000\<close>
  is cast to a 32-bit \<^verbatim>\<open>int\<close>, \<^verbatim>\<open>tb.millitm * 1000000\<close> is an \<^verbatim>\<open>int\<close> product,
  everything else is 64-bit \<^verbatim>\<open>long\<close>; \<open>wrap_signed w\<close> is the value a \<open>w\<close>-bit
  two's-complement integer holds.
\<close>

definition wrap_signed :: "nat \<Rightarrow> int \<Rightarrow> int" where
  "wrap_signed w x = (x + 2 ^ (w - 1)) mod 2 ^ w - 2 ^ (w - 1)"

definition tv_sec :: "32 word \<Rightarrow> int \<Rightarrow> int" where
  "tv_sec timeout tb_time =
     wrap_signed 64 (wrap_signed 32 (uint timeout div 1000) + tb_time)"

definition tv_nsec :: "32 word \<Rightarrow> int \<Rightarrow> nat \<Rightarrow> int" where
  "tv_nsec timeout tb_time tb_millitm =
     wrap_signed 64
       (wrap_signed 64
          (wrap_signed 64 (uint timeout - wrap_signed 64 (tv_sec timeout tb_time * 1000))
             * 1000000)
        + wrap_signed 32 (int tb_millitm * 1000000))"

text \<open>
  \<^verbatim>\<open>pthread_cond_timedwait( &_data->cond, &_data->mutex, &ts )\<close> with a valid
  \<open>ts\<close>. The other threads' operations come with the time, in milliseconds since the
  epoch, at which each takes the mutex, in ascending order. The caller is woken by the
  first operation that calls \<^verbatim>\<open>pthread_cond_signal\<close> (every push does, a removal by
  another consumer does not), or gives up when the next operation comes after the
  deadline or no operation is left.
\<close>

fun signals :: "'a other \<Rightarrow> bool" where
  "signals OtherTake = False"
| "signals ev = True"

fun timedwait :: "int \<Rightarrow> (int \<times> 'a other) list \<Rightarrow> 'a list \<Rightarrow> 'a list" where
  "timedwait deadline [] q = q"
| "timedwait deadline ((t, ev) # env) q =
     (if deadline < t then q
      else if signals ev then other_step q ev
      else timedwait deadline env (other_step q ev))"

text \<open>
  The call itself. \<^verbatim>\<open>pthread_cond_timedwait\<close> fails with \<^verbatim>\<open>EINVAL\<close> when
  \<^verbatim>\<open>tv_nsec\<close> is below 0 or not below 1000 million: it returns at once, the mutex
  is never released and no other thread gets at the queue. There is one timed wait and
  no loop, and the value the wait returns is not looked at.
\<close>

definition pop_timeout ::
  "32 word \<Rightarrow> int \<Rightarrow> nat \<Rightarrow> (int \<times> 'a other) list \<Rightarrow> 'a::zero list \<Rightarrow> 'a outcome" where
  "pop_timeout timeout tb_time tb_millitm env q =
     (let sec = tv_sec timeout tb_time;
          nsec = tv_nsec timeout tb_time tb_millitm;
          q' = (if 0 \<le> nsec \<and> nsec < 1000000000
                then timedwait (sec * 1000 + nsec div 1000000) env q
                else q)
      in if q' = [] then Returned NONE q'
         else Returned (hd q') (tl q'))"

text \<open>
  \<^verbatim>\<open>
  T MTQueue<T>::tryPop()
  {
      if( _queue.empty( ))
          return NONE;
      pthread_mutex_lock( &_data->mutex );
      if( _queue.empty( ))
      {
          pthread_mutex_unlock( &_data->mutex );
          return NONE;
      }
      T element = _queue.front();
      _queue.pop_front();
      pthread_mutex_unlock( &_data->mutex );
      return element;
  }
  \<close>
  The first test runs without the mutex; \<open>e\<close> is what the other threads did between
  that test and the moment the caller holds the mutex. There is no condition wait.
\<close>

definition tryPop :: "'a other list \<Rightarrow> 'a::zero list \<Rightarrow> 'a outcome" where
  "tryPop e q =
     (if q = [] then Returned NONE q
      else let q' = others e q in
        if q' = [] then Returned NONE q'
        else Returned (hd q') (tl q'))"

text \<open>\<^verbatim>\<open>front()\<close> and \<^verbatim>\<open>back()\<close> peek under the mutex and leave the queue as it is.\<close>

definition front :: "'a::zero list \<Rightarrow> 'a" where
  "front q = (if q = [] then NONE else hd q)"

definition back_element :: "'a::zero list \<Rightarrow> 'a" where
  "back_element q = (if q = [] then NONE else last q)"

subsection \<open>A trace of operations issued by one thread\<close>

datatype 'a op = Push 'a | PushFront 'a | Pop

text \<open>
  The operations run one after the other with no other thread involved, so a \<open>Pop\<close>
  that finds the queue empty is never woken and the trace does not complete
  (\<open>None\<close>). A completed trace gives the popped values in order and the final queue.
\<close>

fun run :: "'a op list \<Rightarrow> 'a list \<Rightarrow> ('a list \<times> 'a list) option" where
  "run [] q = Some ([], q)"
| "run (Push x # ops) q = run ops (push q x)"
| "run (PushFront x # ops) q = run ops (pushFront q x)"
| "run (Pop # ops) q =
     (case pop [] q of
        Suspended \<Rightarrow> None
      | Returned x q' \<Rightarrow> map_option (\<lambda>(out, r). (x # out, r)) (run ops q'))"

text \<open>
  The ordering the specification describes, written down independently of the deque:
  the urgent entries (from \<open>PushFront\<close>, most recent first) are kept apart from the
  FIFO entries (from \<open>Push\<close>, oldest first), and a \<open>Pop\<close> serves an urgent entry
  whenever there is one.
\<close>

fun priority_run ::
  "'a op list \<Rightarrow> 'a list \<times> 'a list \<Rightarrow> ('a list \<times> ('a list \<times> 'a list)) option" where
  "priority_run [] s = Some ([], s)"
| "priority_run (Push x # ops) (urgent, fifo) = priority_run ops (urgent, fifo @ [x])"
| "priority_run (PushFront x # ops) (urgent, fifo) = priority_run ops (x # urgent, fifo)"
| "priority_run (Pop # ops) (u # urgent, fifo) =
     map_option (\<lambda>(out, r). (u # out, r)) (priority_run ops (urgent, fifo))"
| "priority_run (Pop # ops) ([], f # fifo) =
     map_option (\<lambda>(out, r). (f # out, r)) (priority_run ops ([], fifo))"
| "priority_run (Pop # ops) ([], []) = None"

subsection \<open>Which mutex is held when a queue is read or written\<close>

text \<open>
  The calls a member function makes on mutexes, conditions and deques, in program order.
  Queues are named by a number; queue \<open>n\<close> owns mutex \<open>n\<close> and condition \<open>n\<close>.
  In \<open>copy_construct\<close> and \<open>assign\<close>, \<open>dst\<close> is \<^verbatim>\<open>*this\<close> and \<open>src\<close> is the
  argument \<^verbatim>\<open>from\<close>.
\<close>

datatype event =
    MutexInit nat
  | CondInit nat
  | MutexLock nat
  | MutexUnlock nat
  | CondSignal nat
  | QueueRead nat
  | QueueWrite nat

text \<open>
  \<^verbatim>\<open>
  MTQueue< T >::MTQueue( const MTQueue< T >& from )
          : _queue( from._queue )
          , _data( new MTQueuePrivate )
  {
      _init();
  }
  \<close>
\<close>

definition copy_construct :: "nat \<Rightarrow> nat \<Rightarrow> event list" where
  "copy_construct dst src = [QueueRead src, QueueWrite dst, MutexInit dst, CondInit dst]"

text \<open>
  \<^verbatim>\<open>
  MTQueue< T >& MTQueue< T >::operator = ( const MTQueue< T >& from )
  {
      pthread_mutex_lock( &_data->mutex );
      _queue = from._queue;
      pthread_cond_signal( &_data->cond );
      pthread_mutex_unlock( &_data->mutex );
      return *this;
  }
  \<close>
\<close>

definition assign :: "nat \<Rightarrow> nat \<Rightarrow> event list" where
  "assign dst src =
     [MutexLock dst, QueueRead src, QueueWrite dst, CondSignal dst, MutexUnlock dst]"

text \<open>The same for \<^verbatim>\<open>front()\<close> and \<^verbatim>\<open>push( const T& )\<close>, which take the queue's own mutex.\<close>

definition front_events :: "nat \<Rightarrow> event list" where
  "front_events q = [MutexLock q, QueueRead q, MutexUnlock q]"

definition push_events :: "nat \<Rightarrow> event list" where
  "push_events q = [MutexLock q, QueueWrite q, CondSignal q, MutexUnlock q]"

text \<open>
  \<open>unguarded held es\<close> collects the deque accesses of \<open>es\<close> that happen while the
  mutex of the accessed queue is not among the mutexes the thread holds.
\<close>

fun unguarded :: "nat list \<Rightarrow> event list \<Rightarrow> event list" where
  "unguarded held [] = []"
| "unguarded held (MutexLock m # es) = unguarded (m # held) es"
| "unguarded held (MutexUnlock m # es) = unguarded (removeAll m held) es"
| "unguarded held (QueueRead q # es) =
     (if q \<in> set held then unguarded held es else QueueRead q # unguarded held es)"
| "unguarded held (QueueWrite q # es) =
     (if q \<in> set held then unguarded held es else QueueWrite q # unguarded held es)"
| "unguarded held (e # es) = unguarded held es"

section \<open>The network controller of \<^verbatim>\<open>net/networkPriv.h\<close>\<close>

text \<open>
  The header declares the class \<^verbatim>\<open>eqNet::priv::Network\<close>: its two enumerations, its
  members and the signatures of its operations. The enumerations and the members are
  taken from the header. The bodies of the operations are not part of the sources at
  hand (\<^verbatim>\<open>init\<close>, \<^verbatim>\<open>start\<close> and \<^verbatim>\<open>startNode\<close> are pure virtual), so each
  operation below is written from the specification's description of it.
\<close>

datatype State = STATE_STOPPED | STATE_STARTING | STATE_RUNNING

datatype NodeState = NODE_STOPPED | NODE_INITIALIZED | NODE_LAUNCHED | NODE_RUNNING

text \<open>
  \<^verbatim>\<open>State _state\<close>,
  \<^verbatim>\<open>eqBase::PtrHash<Node*, ConnectionDescription*> _descriptions\<close> and
  \<^verbatim>\<open>eqBase::PtrHash<Node*, NodeState> _nodeStates\<close>. A \<^verbatim>\<open>Node*\<close> is a number, a
  hash is an association list read with \<open>map_of\<close> and written with \<open>AList.update\<close>,
  and the connection descriptions are values of any type \<open>'d\<close>.

  Modelled from the spec: the field \<open>initialised\<close>, for "ready-to-start (logically
  still pre-STARTING)", the condition \<^verbatim>\<open>init()\<close> establishes and \<^verbatim>\<open>start()\<close>
  requires; the enumeration \<^verbatim>\<open>State\<close> has no value for it.
\<close>

record 'd network =
  state :: State
  descriptions :: "(nat \<times> 'd) list"
  nodeStates :: "(nat \<times> NodeState) list"
  initialised :: bool

definition new_network :: "'d network" where
  "new_network =
     \<lparr>state = STATE_STOPPED, descriptions = [], nodeStates = [], initialised = False\<rparr>"

text \<open>
  Modelled from the spec: the body of \<^verbatim>\<open>Network::addNode\<close>. "Registers a peer with
  state STOPPED (or INITIALIZED if the controller is already initialized). Idempotent if
  the node is already registered with an identical description; re-registering with a
  different description is an error condition that must be rejected, not silently
  overwritten." The C++ function returns \<^verbatim>\<open>void\<close>; the first component of the result
  is what it reports.
\<close>

datatype add_result = Registered | AlreadyRegistered | RejectedConflict

definition addNode :: "nat \<Rightarrow> 'd \<Rightarrow> 'd network \<Rightarrow> add_result \<times> 'd network" where
  "addNode node connection c =
     (case map_of (descriptions c) node of
        None \<Rightarrow>
          (Registered,
           c\<lparr>descriptions := AList.update node connection (descriptions c),
             nodeStates := AList.update node
               (if initialised c then NODE_INITIALIZED else NODE_STOPPED) (nodeStates c)\<rparr>)
      | Some d \<Rightarrow>
          if d = connection then (AlreadyRegistered, c) else (RejectedConflict, c))"

text \<open>
  Modelled from the spec: the body of \<^verbatim>\<open>Network::setStarted( Node* )\<close>.
  "Administrative override marking a node RUNNING immediately", from any prior state;
  the header: "Puts a node into started mode. Used for nodes already running, i.e.,
  the server."
\<close>

definition setStarted :: "nat \<Rightarrow> 'd network \<Rightarrow> 'd network" where
  "setStarted node c = c\<lparr>nodeStates := AList.update node NODE_RUNNING (nodeStates c)\<rparr>"

text \<open>
  Modelled from the spec: an implementation of the pure virtual \<^verbatim>\<open>Network::init\<close>.
  "Fails (returns failure) if resources cannot be acquired; controller remains STOPPED.
  On success, transitions to ready-to-start." The argument says whether the transport's
  resources could be acquired.
\<close>

definition init :: "bool \<Rightarrow> 'd network \<Rightarrow> bool \<times> 'd network" where
  "init acquired c = (if acquired then (True, c\<lparr>initialised := True\<rparr>) else (False, c))"

text \<open>
  Modelled from the spec: an implementation of the pure virtual \<^verbatim>\<open>Network::startNode\<close>.
  "On successful handshake transitions that node's state INITIALIZED, LAUNCHED,
  RUNNING. Returns failure without partial side effects visible to other nodes if the
  remote process cannot be reached or does not complete the handshake." The argument
  \<open>reachable\<close> says for which nodes the launch and the handshake succeed.
\<close>

definition startNode :: "(nat \<Rightarrow> bool) \<Rightarrow> nat \<Rightarrow> 'd network \<Rightarrow> bool \<times> 'd network" where
  "startNode reachable node c =
     (if reachable node
      then (True, c\<lparr>nodeStates := AList.update node NODE_RUNNING (nodeStates c)\<rparr>)
      else (False, c))"

text \<open>
  Modelled from the spec: an implementation of the pure virtual \<^verbatim>\<open>Network::stop\<close>.
  It "stops every currently running node's lifecycle and returns the controller toward
  STOPPED".
\<close>

definition stop :: "'d network \<Rightarrow> 'd network" where
  "stop c =
     c\<lparr>state := STATE_STOPPED,
       nodeStates :=
         map (\<lambda>(node, s). (node, if s = NODE_RUNNING then NODE_STOPPED else s))
           (nodeStates c)\<rparr>"

text \<open>
  Modelled from the spec: the loop of \<^verbatim>\<open>start()\<close>. It "invokes startNode for every
  registered peer not already RUNNING". "If any startNode fails, the controller must not
  claim RUNNING; peers already started as part of this call are stopped again", so that
  "the controller ends in state STOPPED (or pre-start), and no node is left RUNNING":
  the failure branch stops the network, which stops every running node, the ones
  started in this call among them. The second argument lists the nodes still to visit.
\<close>

fun start_nodes ::
  "(nat \<Rightarrow> bool) \<Rightarrow> nat list \<Rightarrow> 'd network \<Rightarrow> bool \<times> 'd network" where
  "start_nodes reachable [] c = (True, c)"
| "start_nodes reachable (node # rest) c =
     (if map_of (nodeStates c) node = Some NODE_RUNNING
      then start_nodes reachable rest c
      else if fst (startNode reachable node c)
      then start_nodes reachable rest (snd (startNode reachable node c))
      else (False, stop (snd (startNode reachable node c))))"

text \<open>
  Modelled from the spec: an implementation of the pure virtual \<^verbatim>\<open>Network::start\<close>.
  "It is illegal (no-op or error) to call start on a STOPPED controller" that has not
  been initialised. Otherwise it "transitions to STARTING", runs the loop above over the
  registered nodes, and "on full success the controller becomes RUNNING".
\<close>

definition start :: "(nat \<Rightarrow> bool) \<Rightarrow> 'd network \<Rightarrow> bool \<times> 'd network" where
  "start reachable c =
     (if initialised c
      then
        (let r = start_nodes reachable (map fst (nodeStates c))
                   (c\<lparr>state := STATE_STARTING\<rparr>)
         in if fst r
            then (True, (snd r)\<lparr>state := STATE_RUNNING\<rparr>)
            else (False, snd r))
      else (False, c))"

subsection \<open>Command dispatch\<close>

text \<open>
  A packet carries a command identifier and a payload; for the "add node" command the
  payload names a node and its connection description.
\<close>

record 'd packet =
  command :: int
  packet_node :: nat
  packet_connection :: 'd

text \<open>
  \<^verbatim>\<open>void (eqNet::priv::Network::*_cmdHandler[CMD_NETWORK_ALL])( const Packet* packet )\<close>:
  an array of \<^verbatim>\<open>CMD_NETWORK_ALL\<close> member-function pointers, each null or bound to a
  handler. The header declares one handler, \<^verbatim>\<open>_cmdNetworkAddNode\<close>. The constant
  \<^verbatim>\<open>CMD_NETWORK_ALL\<close> comes from \<^verbatim>\<open>commands.h\<close>, which is not at hand: it is a
  parameter.
\<close>

datatype handler = CmdNetworkAddNode

text \<open>
  Reading a C array: inside its bounds the entry, outside them undefined behaviour.
\<close>

datatype 'h table_read = Entry 'h | UndefinedBehaviour

definition table_entry :: "'h list \<Rightarrow> int \<Rightarrow> 'h table_read" where
  "table_entry table i =
     (if 0 \<le> i \<and> i < int (length table) then Entry (table ! nat i) else UndefinedBehaviour)"

text \<open>
  Modelled from the spec: the body of \<^verbatim>\<open>Network::_cmdNetworkAddNode\<close>. "It merges the
  announced node into its own membership view (same idempotency rule as addNode)."
\<close>

definition cmdNetworkAddNode :: "'d packet \<Rightarrow> 'd network \<Rightarrow> add_result \<times> 'd network" where
  "cmdNetworkAddNode pkt c = addNode (packet_node pkt) (packet_connection pkt) c"

fun run_handler :: "handler \<Rightarrow> 'd packet \<Rightarrow> 'd network \<Rightarrow> add_result \<times> 'd network" where
  "run_handler CmdNetworkAddNode pkt c = cmdNetworkAddNode pkt c"

text \<open>
  Modelled from the spec: the body of \<^verbatim>\<open>Network::handlePacket\<close>. "Look up
  packet.command in the dispatch table and invoke the bound handler with the packet. An
  out-of-range or unregistered command identifier is a protocol error, reported and the
  packet dropped."
\<close>

datatype protocol_error = CommandOutOfRange int | NoHandler int

datatype dispatch = Handled add_result | Dropped protocol_error | Crashed

definition handlePacket ::
  "nat \<Rightarrow> handler option list \<Rightarrow> 'd packet \<Rightarrow> 'd network \<Rightarrow> dispatch \<times> 'd network" where
  "handlePacket CMD_NETWORK_ALL cmdHandler pkt c =
     (if command pkt < 0 \<or> int CMD_NETWORK_ALL \<le> command pkt
      then (Dropped (CommandOutOfRange (command pkt)), c)
      else
        (case table_entry cmdHandler (command pkt) of
           UndefinedBehaviour \<Rightarrow> (Crashed, c)
         | Entry None \<Rightarrow> (Dropped (NoHandler (command pkt)), c)
         | Entry (Some h) \<Rightarrow>
             (Handled (fst (run_handler h pkt c)), snd (run_handler h pkt c))))"

section \<open>Properties of the queue\<close>

lemma others_Nil: "others [] q = q"
  by (simp add: others_def)

lemma run_append_split:
  "run ops (urgent @ fifo) =
     map_option (\<lambda>(out, (u, f)). (out, u @ f)) (priority_run ops (urgent, fifo))"
proof (induction ops arbitrary: urgent fifo)
  case Nil
  then show ?case by simp
next
  case (Cons a ops)
  show ?case
  proof (cases a)
    case (Push x)
    with Cons [of urgent "fifo @ [x]"] show ?thesis by (simp add: push_def)
  next
    case (PushFront x)
    with Cons [of "x # urgent" fifo] show ?thesis by (simp add: pushFront_def)
  next
    case Pop
    show ?thesis
    proof (cases urgent)
      case (Cons u urgent')
      with Pop Cons.IH [of urgent' fifo] show ?thesis
        by (simp add: option.map_comp comp_def split_def)
    next
      case Nil
      show ?thesis
      proof (cases fifo)
        case (Cons f fifo')
        with Pop Nil Cons.IH [of "[]" fifo'] show ?thesis
          by (simp add: option.map_comp comp_def split_def)
      next
        case Nil
        with Pop \<open>urgent = []\<close> show ?thesis by simp
      qed
    qed
  qed
qed

text \<open>
  C1. On one queue, any sequence of push, pushFront and pop gives the pop order of the
  FIFO-with-front-priority discipline: what the deque returns is what is returned when
  the pushFront entries (most recent first) are served before the push entries (oldest
  first), and the two block on the same pop. In particular push 1, push 2, push 3,
  pushFront 9 and three pops return 9, 1, 2 and leave 3 in the queue.
\<close>

theorem C1_pop_order:
  "run ops (urgent @ fifo) =
     map_option (\<lambda>(out, (u, f)). (out, u @ f)) (priority_run ops (urgent, fifo))
   \<and> run [Push 1, Push 2, Push 3, PushFront 9, Pop, Pop, Pop] [] = Some ([9, 1, 2], [3::int])"
  by (simp add: run_append_split push_def pushFront_def)

text \<open>
  C8. Pushing a vector appends its elements in order in one update of the deque, and
  the queue it leaves is the one left by pushing the elements one by one in order.
\<close>

theorem C8_push_vector:
  "push_vector q elements = foldl push q elements \<and> push_vector q elements = q @ elements"
proof -
  have "foldl push q elements = q @ elements"
    by (induction elements arbitrary: q) (simp_all add: push_def)
  then show ?thesis by (simp add: push_vector_def)
qed

lemma pop_empty_waits:
  "pop env [] =
     (case dropWhile (\<lambda>e. others e [] = []) env of
        [] \<Rightarrow> Suspended
      | e # rest \<Rightarrow> Returned (hd (others e [])) (tl (others e [])))"
proof (induction env)
  case Nil
  then show ?case by simp
next
  case (Cons e env)
  show ?case
  proof (cases "others e []")
    case Nil
    with Cons show ?thesis by simp
  next
    case (Cons y ys)
    then show ?thesis by simp
  qed
qed

text \<open>
  C5. On a non-empty queue pop returns the front element and leaves the rest in its
  order, whatever the other threads do. On an empty queue it does not return a
  "missing" value: it stays in the wait through every wake-up that finds the queue
  still empty, returns the front element of the first non-empty queue it wakes up to,
  and stays suspended when there is no such wake-up.
\<close>

theorem C5_pop:
  "pop env (x # xs) = Returned x xs
   \<and> pop env [] =
       (case dropWhile (\<lambda>e. others e [] = []) env of
          [] \<Rightarrow> Suspended
        | e # rest \<Rightarrow> Returned (hd (others e [])) (tl (others e [])))"
  using pop_empty_waits [of env] by simp

lemma wrap_signed_64:
  "- 9223372036854775808 \<le> x \<Longrightarrow> x < 9223372036854775808 \<Longrightarrow> wrap_signed 64 x = x"
  by (simp add: wrap_signed_def)

lemma wrap_signed_32:
  "- 2147483648 \<le> x \<Longrightarrow> x < 2147483648 \<Longrightarrow> wrap_signed 32 x = x"
  by (simp add: wrap_signed_def)

lemma timeout_range: "0 \<le> uint (timeout :: 32 word) \<and> uint timeout < 4294967296"
  using uint_lt2p [of timeout] by simp

lemma div_bounds:
  "0 \<le> uint (timeout :: 32 word) div 1000 \<and> uint timeout div 1000 < 4294968"
proof -
  have "uint timeout div 1000 \<le> 4294967295 div 1000"
    using timeout_range [of timeout] by (intro zdiv_mono1) simp_all
  then show ?thesis by (simp add: pos_imp_zdiv_nonneg_iff)
qed

lemma tv_sec_value:
  assumes "0 \<le> tb_time" "tb_time < 4294967296"
  shows "tv_sec timeout tb_time = uint timeout div 1000 + tb_time"
proof -
  have "0 \<le> uint timeout div 1000" and "uint timeout div 1000 < 4294968"
    using div_bounds [of timeout] by simp_all
  then show ?thesis using assms
    by (simp add: tv_sec_def wrap_signed_32 wrap_signed_64)
qed

lemma tv_nsec_value:
  assumes "0 \<le> tb_time" "tb_time < 4294967296" "tb_millitm < 1000"
  shows "tv_nsec timeout tb_time tb_millitm =
           (uint timeout mod 1000 - tb_time * 1000 + int tb_millitm) * 1000000"
proof -
  let ?t = "uint timeout"
  have q: "0 \<le> ?t div 1000" "?t div 1000 < 4294968"
    using div_bounds [of timeout] by simp_all
  have s: "tv_sec timeout tb_time = ?t div 1000 + tb_time"
    using assms by (rule_tac tv_sec_value) simp_all
  have a: "wrap_signed 64 ((?t div 1000 + tb_time) * 1000) = (?t div 1000 + tb_time) * 1000"
    using q assms by (intro wrap_signed_64) simp_all
  have e: "?t - (?t div 1000 + tb_time) * 1000 = ?t mod 1000 - tb_time * 1000"
    by (simp add: algebra_simps minus_div_mult_eq_mod [symmetric])
  have m: "0 \<le> ?t mod 1000" "?t mod 1000 < 1000" by simp_all
  have b: "wrap_signed 64 (?t mod 1000 - tb_time * 1000) = ?t mod 1000 - tb_time * 1000"
    using m assms by (intro wrap_signed_64) simp_all
  have c: "wrap_signed 64 ((?t mod 1000 - tb_time * 1000) * 1000000)
             = (?t mod 1000 - tb_time * 1000) * 1000000"
    using m assms by (intro wrap_signed_64) simp_all
  have f: "wrap_signed 32 (int tb_millitm * 1000000) = int tb_millitm * 1000000"
    using assms by (intro wrap_signed_32) simp_all
  have g: "wrap_signed 64 ((?t mod 1000 - tb_time * 1000) * 1000000 + int tb_millitm * 1000000)
             = (?t mod 1000 - tb_time * 1000) * 1000000 + int tb_millitm * 1000000"
    using m assms by (intro wrap_signed_64) simp_all
  show ?thesis
    unfolding tv_nsec_def s a e b c f g by (simp add: algebra_simps)
qed

lemma tv_nsec_negative:
  assumes "2 \<le> tb_time" "tb_time < 4294967296" "tb_millitm < 1000"
  shows "tv_nsec timeout tb_time tb_millitm < 0"
proof -
  have "uint timeout mod 1000 < 1000" by simp
  with assms have "uint timeout mod 1000 - tb_time * 1000 + int tb_millitm < 0" by simp
  then show ?thesis using assms by (simp add: tv_nsec_value mult_less_0_iff)
qed

lemma pop_timeout_waits_with_valid_timespec:
  "pop_timeout 1000 0 0 [(100, OtherPush 7)] [] = Returned 7 ([]::int list)"
  by (simp add: pop_timeout_def tv_sec_def tv_nsec_def wrap_signed_def Let_def push_def)

text \<open>
  C6. The claim is that pop with a timeout waits for an element until the deadline and
  returns NONE only when none has become available by then. The code does not wait:
  for every timeout and every clock reading from two seconds after the epoch on,
  \<^verbatim>\<open>tv_nsec\<close> is negative, the timed wait fails at once, and the call returns what
  the queue holds at that moment, whatever the other threads go on to push before the
  deadline: NONE on an empty queue, the front element otherwise.
\<close>

theorem C6_pop_timeout_returns_at_once:
  assumes "2 \<le> tb_time" "tb_time < 4294967296" "tb_millitm < 1000"
  shows "tv_nsec timeout tb_time tb_millitm < 0
    \<and> pop_timeout timeout tb_time tb_millitm env [] = Returned NONE []
    \<and> pop_timeout timeout tb_time tb_millitm env (x # xs) = Returned x xs"
  using tv_nsec_negative [OF assms, of timeout]
  by (simp add: pop_timeout_def Let_def)

theorem C6_pop_timeout_returns_at_once_witness:
  "(2::int) \<le> 1700000000 \<and> (1700000000::int) < 4294967296 \<and> (0::nat) < 1000
   \<and> pop_timeout 1000 1700000000 0 [(1700000000100, OtherPush 7)] []
       = Returned NONE ([]::int list)"
  using C6_pop_timeout_returns_at_once
    [of 1700000000 0 1000 "[(1700000000100, OtherPush (7::int))]"]
  by simp

text \<open>
  C7. tryPop never waits, whatever the other threads do. On an empty queue it returns
  NONE and leaves the queue empty; on a non-empty queue it removes and returns the
  front element. When other threads get at the queue between its two emptiness tests,
  it returns the front of what they left, or NONE if they left nothing.
\<close>

theorem C7_tryPop:
  "tryPop e q \<noteq> Suspended
   \<and> tryPop e [] = Returned NONE []
   \<and> tryPop [] (x # xs) = Returned x xs
   \<and> (case others e (x # xs) of
         [] \<Rightarrow> tryPop e (x # xs) = Returned NONE []
       | y # ys \<Rightarrow> tryPop e (x # xs) = Returned y ys)"
  by (simp add: tryPop_def Let_def others_Nil split: list.split)

text \<open>
  C9. Copying and assigning read the source queue's deque without holding the source
  queue's mutex: the assignment holds only the destination's mutex, the copy
  constructor holds none. \<^verbatim>\<open>front()\<close> and \<^verbatim>\<open>push()\<close> on the same source queue make
  every deque access under its mutex.
\<close>

theorem C9_copy_reads_source_unlocked:
  "unguarded [] (assign dst src) = (if src = dst then [] else [QueueRead src])
   \<and> unguarded [] (copy_construct dst src) = [QueueRead src, QueueWrite dst]
   \<and> unguarded [] (front_events src) = []
   \<and> unguarded [] (push_events src) = []"
  by (simp add: assign_def copy_construct_def front_events_def push_events_def)

text \<open>
  C10 as stated fails for \<^verbatim>\<open>back()\<close>: the queue 0, 5 has the zero value at its front,
  and \<^verbatim>\<open>back()\<close> returns 5.
\<close>

theorem C10_back_counterexample:
  "hd [0, 5::int] = 0 \<and> front [0, 5::int] = NONE \<and> back_element [0, 5::int] \<noteq> NONE"
  by (simp add: front_def back_element_def NONE_def)

text \<open>
  C10, amended. NONE is the zero value of the element type. On a queue whose front
  element is zero, tryPop and front return NONE, the value they return on an empty
  queue; on a queue whose back element is zero, back returns NONE, the value it
  returns on an empty queue.
\<close>

theorem C10_sentinel_is_zero:
  "(NONE::'a::zero) = 0
   \<and> (q \<noteq> [] \<and> hd q = (0::'a) \<longrightarrow>
        tryPop [] q = Returned NONE (tl q) \<and> tryPop [] ([]::'a list) = Returned NONE []
        \<and> front q = NONE \<and> front q = front ([]::'a list))
   \<and> (q \<noteq> [] \<and> last q = (0::'a) \<longrightarrow>
        back_element q = NONE \<and> back_element q = back_element ([]::'a list))"
  by (simp add: NONE_def tryPop_def front_def back_element_def others_Nil Let_def)

theorem C10_sentinel_is_zero_witness:
  "[0, 5::int] \<noteq> [] \<and> hd [0, 5::int] = 0
   \<and> tryPop [] [0, 5::int] = Returned NONE [5] \<and> front [0, 5::int] = NONE
   \<and> [5, 0::int] \<noteq> [] \<and> last [5, 0::int] = 0 \<and> back_element [5, 0::int] = NONE"
  using C10_sentinel_is_zero [of "[0, 5::int]"] C10_sentinel_is_zero [of "[5, 0::int]"]
  by simp

section \<open>Properties of the network controller\<close>

lemma stop_states:
  "map_of (nodeStates (stop c)) n \<noteq> Some NODE_RUNNING"
proof -
  have "map_of (map (\<lambda>(node, s). (node, if s = NODE_RUNNING then NODE_STOPPED else s)) al) n
          \<noteq> Some NODE_RUNNING" for al :: "(nat \<times> NodeState) list"
    by (induction al) (auto split: if_splits)
  then show ?thesis by (simp add: stop_def)
qed

lemma start_nodes_descriptions:
  "descriptions (snd (start_nodes reachable todo c)) = descriptions c"
  by (induction todo arbitrary: c) (auto simp: startNode_def stop_def)

lemma start_nodes_fails:
  "bad \<in> set todo \<Longrightarrow> map_of (nodeStates c) bad \<noteq> Some NODE_RUNNING \<Longrightarrow> \<not> reachable bad
   \<Longrightarrow> \<not> fst (start_nodes reachable todo c)"
proof (induction todo arbitrary: c)
  case Nil
  then show ?case by simp
next
  case (Cons node rest)
  show ?case
  proof (cases "map_of (nodeStates c) node = Some NODE_RUNNING")
    case True
    with Cons.prems have "bad \<in> set rest" by auto
    with Cons.IH [of c] Cons.prems True show ?thesis by simp
  next
    case False
    show ?thesis
    proof (cases "reachable node")
      case True
      with Cons.prems have ne: "bad \<noteq> node" and "bad \<in> set rest" by auto
      let ?c = "c\<lparr>nodeStates := AList.update node NODE_RUNNING (nodeStates c)\<rparr>"
      from ne Cons.prems have "map_of (nodeStates ?c) bad \<noteq> Some NODE_RUNNING"
        by (simp add: update_conv')
      with Cons.IH [of ?c] \<open>bad \<in> set rest\<close> Cons.prems(3)
      have "\<not> fst (start_nodes reachable rest ?c)" by blast
      with False True show ?thesis by (simp add: startNode_def)
    next
      case nr: False
      with False show ?thesis by (simp add: startNode_def)
    qed
  qed
qed

lemma start_nodes_stopped:
  "\<not> fst (start_nodes reachable todo c) \<Longrightarrow>
   state (snd (start_nodes reachable todo c)) = STATE_STOPPED
   \<and> map_of (nodeStates (snd (start_nodes reachable todo c))) n \<noteq> Some NODE_RUNNING"
proof (induction todo arbitrary: c)
  case Nil
  then show ?case by simp
next
  case (Cons node rest)
  show ?case
  proof (cases "map_of (nodeStates c) node = Some NODE_RUNNING")
    case True
    with Cons.IH [of c] Cons.prems show ?thesis by simp
  next
    case False
    show ?thesis
    proof (cases "reachable node")
      case True
      let ?c = "c\<lparr>nodeStates := AList.update node NODE_RUNNING (nodeStates c)\<rparr>"
      from False True Cons.prems have "\<not> fst (start_nodes reachable rest ?c)"
        by (simp add: startNode_def)
      from Cons.IH [OF this] False True show ?thesis by (simp add: startNode_def)
    next
      case nr: False
      with False show ?thesis
        using stop_states [of c n] by (simp add: startNode_def stop_def)
    qed
  qed
qed

lemma start_nodes_succeeds:
  "\<forall>n \<in> set todo. map_of (nodeStates c) n \<noteq> Some NODE_RUNNING \<longrightarrow> reachable n \<Longrightarrow>
   fst (start_nodes reachable todo c)
   \<and> (\<forall>n. n \<in> set todo \<or> map_of (nodeStates c) n = Some NODE_RUNNING \<longrightarrow>
          map_of (nodeStates (snd (start_nodes reachable todo c))) n = Some NODE_RUNNING)"
proof (induction todo arbitrary: c)
  case Nil
  then show ?case by simp
next
  case (Cons node rest)
  show ?case
  proof (cases "map_of (nodeStates c) node = Some NODE_RUNNING")
    case True
    from Cons.prems have "\<forall>n \<in> set rest. map_of (nodeStates c) n \<noteq> Some NODE_RUNNING \<longrightarrow> reachable n"
      by simp
    from Cons.IH [OF this] True show ?thesis by auto
  next
    case False
    with Cons.prems have r: "reachable node" by simp
    let ?c = "c\<lparr>nodeStates := AList.update node NODE_RUNNING (nodeStates c)\<rparr>"
    from Cons.prems
    have "\<forall>n \<in> set rest. map_of (nodeStates ?c) n \<noteq> Some NODE_RUNNING \<longrightarrow> reachable n"
      by (simp add: update_conv')
    from Cons.IH [OF this] False r show ?thesis
      by (auto simp: startNode_def update_conv')
  qed
qed

text \<open>
  C2. On an initialised controller with any number of registered nodes: if
  \<^verbatim>\<open>startNode\<close> fails for a registered node that is not yet running, \<^verbatim>\<open>start()\<close>
  returns failure, the controller ends STOPPED, no node is left RUNNING (the nodes
  started during the call have been stopped again) and every description is kept.
  Otherwise \<^verbatim>\<open>start()\<close> succeeds, the controller is RUNNING and so is every
  registered node.
\<close>

theorem C2_start_rollback:
  assumes "initialised c"
  shows
    "if (\<exists>node \<in> set (map fst (nodeStates c)).
           map_of (nodeStates c) node \<noteq> Some NODE_RUNNING \<and> \<not> reachable node)
     then \<not> fst (start reachable c)
       \<and> state (snd (start reachable c)) = STATE_STOPPED
       \<and> (\<forall>n. map_of (nodeStates (snd (start reachable c))) n \<noteq> Some NODE_RUNNING)
       \<and> descriptions (snd (start reachable c)) = descriptions c
     else fst (start reachable c)
       \<and> state (snd (start reachable c)) = STATE_RUNNING
       \<and> (\<forall>n \<in> set (map fst (nodeStates c)).
            map_of (nodeStates (snd (start reachable c))) n = Some NODE_RUNNING)"
proof -
  let ?c = "c\<lparr>state := STATE_STARTING\<rparr>"
  let ?todo = "map fst (nodeStates c)"
  let ?r = "start_nodes reachable ?todo ?c"
  show ?thesis
  proof (cases "\<exists>node \<in> set ?todo. map_of (nodeStates c) node \<noteq> Some NODE_RUNNING \<and> \<not> reachable node")
    case True
    then obtain bad where "bad \<in> set ?todo"
      and "map_of (nodeStates ?c) bad \<noteq> Some NODE_RUNNING" and "\<not> reachable bad"
      by auto
    then have failed: "\<not> fst ?r" by (rule start_nodes_fails)
    with assms have res: "start reachable c = (False, snd ?r)"
      by (simp add: start_def Let_def)
    have "descriptions (snd ?r) = descriptions c"
      using start_nodes_descriptions [of reachable ?todo ?c] by simp
    with True res start_nodes_stopped [OF failed] show ?thesis by simp
  next
    case False
    then have "\<forall>n \<in> set ?todo. map_of (nodeStates ?c) n \<noteq> Some NODE_RUNNING \<longrightarrow> reachable n"
      by auto
    from start_nodes_succeeds [OF this]
    have ok: "fst ?r"
      and all: "\<And>n. n \<in> set ?todo \<Longrightarrow> map_of (nodeStates (snd ?r)) n = Some NODE_RUNNING"
      by blast+
    from ok assms have "start reachable c = (True, (snd ?r)\<lparr>state := STATE_RUNNING\<rparr>)"
      by (simp add: start_def Let_def)
    with False all show ?thesis by simp
  qed
qed

theorem C2_start_rollback_witness:
  "initialised (setStarted 3 (snd (init True (snd (addNode 3 ''mpi''
      (snd (addNode 2 ''pipe'' (snd (addNode 1 ''tcp'' new_network)))))))))
   \<and> \<not> fst (start (\<lambda>n. n = 1) (setStarted 3 (snd (init True (snd (addNode 3 ''mpi''
      (snd (addNode 2 ''pipe'' (snd (addNode 1 ''tcp'' new_network))))))))))
   \<and> map_of (nodeStates (snd (start (\<lambda>n. n = 1) (setStarted 3 (snd (init True
      (snd (addNode 3 ''mpi'' (snd (addNode 2 ''pipe''
        (snd (addNode 1 ''tcp'' new_network))))))))))))
       3 \<noteq> Some NODE_RUNNING
   \<and> fst (start (\<lambda>n. True) (setStarted 3 (snd (init True (snd (addNode 3 ''mpi''
      (snd (addNode 2 ''pipe'' (snd (addNode 1 ''tcp'' new_network))))))))))"
proof -
  let ?c = "setStarted 3 (snd (init True (snd (addNode 3 ''mpi''
      (snd (addNode 2 ''pipe'' (snd (addNode 1 ''tcp'' new_network))))))))"
  have i: "initialised ?c"
    by (simp add: setStarted_def init_def addNode_def new_network_def)
  have b: "\<exists>node \<in> set (map fst (nodeStates ?c)).
           map_of (nodeStates ?c) node \<noteq> Some NODE_RUNNING \<and> \<not> (\<lambda>n. n = 1) node"
    by (simp add: setStarted_def init_def addNode_def new_network_def)
  have g: "\<not> (\<exists>node \<in> set (map fst (nodeStates ?c)).
           map_of (nodeStates ?c) node \<noteq> Some NODE_RUNNING \<and> \<not> (\<lambda>n. True) node)"
    by simp
  from C2_start_rollback [OF i, of "\<lambda>n. n = 1"] b
  have f: "\<not> fst (start (\<lambda>n. n = 1) ?c)
     \<and> (\<forall>n. map_of (nodeStates (snd (start (\<lambda>n. n = 1) ?c))) n \<noteq> Some NODE_RUNNING)"
    by simp
  from C2_start_rollback [OF i, of "\<lambda>n. True"] g
  have s: "fst (start (\<lambda>n. True) ?c)" by simp
  from i f s show ?thesis by blast
qed

lemma addNode_retains:
  "map_of (descriptions c) m = Some d0 \<Longrightarrow>
   map_of (descriptions (snd (addNode node d' c))) m = Some d0"
  by (auto simp: addNode_def update_conv' split: option.splits)

text \<open>
  C3. For a node registered with description \<open>d\<close>, \<^verbatim>\<open>addNode\<close> and the "add node"
  command with the same description leave the controller, and so both maps, as they
  are; with a different description they are rejected and leave the controller as it
  is. No call of \<^verbatim>\<open>addNode\<close>, for any node, changes the description an already
  registered node has.
\<close>

theorem C3_addNode_idempotent:
  "(map_of (descriptions c) node = Some d \<longrightarrow>
      addNode node d c = (AlreadyRegistered, c)
      \<and> cmdNetworkAddNode \<lparr>command = k, packet_node = node, packet_connection = d\<rparr> c
          = (AlreadyRegistered, c))
   \<and> (map_of (descriptions c) node = Some d \<and> d' \<noteq> d \<longrightarrow>
      addNode node d' c = (RejectedConflict, c)
      \<and> cmdNetworkAddNode \<lparr>command = k, packet_node = node, packet_connection = d'\<rparr> c
          = (RejectedConflict, c))
   \<and> (map_of (descriptions c) m = Some d0 \<longrightarrow>
      map_of (descriptions (snd (addNode node d' c))) m = Some d0)"
  using addNode_retains [of c m d0 node d']
  by (simp add: addNode_def cmdNetworkAddNode_def)

theorem C3_addNode_idempotent_witness:
  "map_of (descriptions (snd (addNode 1 ''tcp'' new_network))) 1 = Some ''tcp''
   \<and> ''pipe'' \<noteq> ''tcp''
   \<and> addNode 1 ''tcp'' (snd (addNode 1 ''tcp'' new_network))
       = (AlreadyRegistered, snd (addNode 1 ''tcp'' new_network))
   \<and> addNode 1 ''pipe'' (snd (addNode 1 ''tcp'' new_network))
       = (RejectedConflict, snd (addNode 1 ''tcp'' new_network))"
proof -
  let ?c = "snd (addNode 1 ''tcp'' new_network)"
  have r: "map_of (descriptions ?c) 1 = Some ''tcp''"
    by (simp add: addNode_def new_network_def)
  have n: "''pipe'' \<noteq> ''tcp''" by simp
  from C3_addNode_idempotent [of ?c 1 "''tcp''" 0 "''pipe''"] r n show ?thesis by blast
qed

text \<open>
  C4. With a dispatch table of \<^verbatim>\<open>CMD_NETWORK_ALL\<close> entries, \<^verbatim>\<open>handlePacket\<close> never
  reads the table outside its bounds. A packet whose command is below 0 or not below
  \<^verbatim>\<open>CMD_NETWORK_ALL\<close>, or whose table entry holds no handler, is dropped with a
  reported protocol error, and the controller is left as it was.
\<close>

theorem C4_handlePacket:
  assumes "length cmdHandler = CMD_NETWORK_ALL"
  shows "fst (handlePacket CMD_NETWORK_ALL cmdHandler pkt c) \<noteq> Crashed
    \<and> (command pkt < 0 \<or> int CMD_NETWORK_ALL \<le> command pkt \<longrightarrow>
         handlePacket CMD_NETWORK_ALL cmdHandler pkt c
           = (Dropped (CommandOutOfRange (command pkt)), c))
    \<and> (0 \<le> command pkt \<and> command pkt < int CMD_NETWORK_ALL
         \<and> cmdHandler ! nat (command pkt) = None \<longrightarrow>
         handlePacket CMD_NETWORK_ALL cmdHandler pkt c
           = (Dropped (NoHandler (command pkt)), c))"
  using assms
  by (auto simp: handlePacket_def table_entry_def split: option.splits)

theorem C4_handlePacket_witness:
  "length [Some CmdNetworkAddNode, None] = 2
   \<and> handlePacket 2 [Some CmdNetworkAddNode, None]
        \<lparr>command = 7, packet_node = 1, packet_connection = ''tcp''\<rparr>
        (new_network :: string network)
       = (Dropped (CommandOutOfRange 7), new_network)
   \<and> handlePacket 2 [Some CmdNetworkAddNode, None]
        \<lparr>command = 1, packet_node = 1, packet_connection = ''tcp''\<rparr>
        (new_network :: string network)
       = (Dropped (NoHandler 1), new_network)"
proof -
  have l: "length [Some CmdNetworkAddNode, None] = 2" by simp
  from C4_handlePacket [OF l,
      of "\<lparr>command = 7, packet_node = 1, packet_connection = ''tcp''\<rparr>"
         "new_network :: string network"]
    C4_handlePacket [OF l,
      of "\<lparr>command = 1, packet_node = 1, packet_connection = ''tcp''\<rparr>"
         "new_network :: string network"]
  show ?thesis by simp
qed

end
